theory Spec2Isabelle
  imports Complex_Main "HOL-Library.AList"
begin

section \<open>Data model\<close>

text \<open>
  Tensors and arrays of floating-point numbers are lists of reals: a vector is a list of
  coordinates, a matrix the list of its rows. Node and relation indices are naturals.
\<close>

type_synonym vec = "real list"
type_synonym matrix = "real list list"

text \<open>
  The exceptions of the program. \<open>HTTPException\<close> is raised by the endpoints of
  \<^verbatim>\<open>app.py\<close>; \<open>IndexError\<close> and \<open>KeyError\<close> are what an out-of-range
  row read and a missing dictionary key raise; \<open>ShapeError\<close> is the failure of a
  matrix product on mismatched dimensions. \<open>EmptyGraphError\<close> is the name the
  specification uses for an empty entity set.
\<close>

datatype error = EmptyGraphError | IndexError | KeyError | ShapeError | HTTPException nat string

text \<open>
  A Python dictionary keeps its keys in insertion order: \<^verbatim>\<open>d[k] = v\<close> overwrites the
  value of a key already present, in place, and appends a new key at the end.
\<close>

type_synonym ('k, 'v) dict = "('k \<times> 'v) list"

definition dict_set :: "('k, 'v) dict \<Rightarrow> 'k \<Rightarrow> 'v \<Rightarrow> ('k, 'v) dict" where
  "dict_set d k v = AList.update k v d"

definition dict_has :: "('k, 'v) dict \<Rightarrow> 'k \<Rightarrow> bool" where
  "dict_has d k = (map_of d k \<noteq> None)"

text \<open>\<^verbatim>\<open>dict(pairs)\<close>: the pairs are inserted from left to right.\<close>

definition dict_of_pairs :: "('k \<times> 'v) list \<Rightarrow> ('k, 'v) dict" where
  "dict_of_pairs ps = foldl (\<lambda>d (k, v). dict_set d k v) [] ps"

text \<open>\<^verbatim>\<open>xs[:k]\<close>: a negative bound counts from the end of the list.\<close>

definition py_slice_to :: "'a list \<Rightarrow> int \<Rightarrow> 'a list" where
  "py_slice_to xs k =
     (if 0 \<le> k then take (nat k) xs else take (nat (int (length xs) + k)) xs)"

subsection \<open>Graph ingestion (\<^verbatim>\<open>services/neo4j_connector.py\<close>)\<close>

record graph_data =
  node_map :: "(int, nat) dict"
  entity_ids :: "string list"
  labels :: "string list"
  edges :: "(nat \<times> nat) list"
  edge_types :: "nat list"
  rel_type_map :: "(string, nat) dict"

text \<open>
  A row of the node query: the database's internal id, the \<^verbatim>\<open>id\<close> property of the node
  (absent when the node has none) and its first label.
\<close>

type_synonym node_record = "int \<times> string option \<times> string option"

fun string_of_nat :: "nat \<Rightarrow> string" where
  "string_of_nat n =
     (if n < 10 then [''0123456789'' ! n]
      else string_of_nat (n div 10) @ [''0123456789'' ! (n mod 10)])"

declare string_of_nat.simps [simp del]

text \<open>\<^verbatim>\<open>value or default\<close> on an optional string: \<^verbatim>\<open>None\<close> and the empty string are falsy.\<close>

fun str_or :: "string option \<Rightarrow> string \<Rightarrow> string" where
  "str_or None d = d"
| "str_or (Some s) d = (if s = [] then d else s)"

text \<open>
  The loop over the node rows in \<^verbatim>\<open>get_graph_data\<close>, on the triple
  \<open>(node_map, entity_ids, labels)\<close>.
\<close>

fun get_graph_data_nodes ::
  "nat \<Rightarrow> node_record list \<Rightarrow> (int, nat) dict \<times> string list \<times> string list
     \<Rightarrow> (int, nat) dict \<times> string list \<times> string list" where
  "get_graph_data_nodes idx [] acc = acc"
| "get_graph_data_nodes idx ((neo4j_id, eid, lab) # rs) (nmap, ids, labs) =
     get_graph_data_nodes (Suc idx) rs
       (dict_set nmap neo4j_id idx,
        ids @ [str_or eid (''node_'' @ string_of_nat idx)],
        labs @ [str_or lab ''Entity''])"

text \<open>
  A row of the edge query: the internal ids of the two ends and the relationship type.
\<close>

type_synonym edge_record = "int \<times> int \<times> string option"

text \<open>
  The loop over the edge rows in \<^verbatim>\<open>get_graph_data\<close>, on the triple
  \<open>(edges, rel_types, rel_type_map)\<close>. A relation name not seen before takes the next
  relation index.
\<close>

fun get_graph_data_edges ::
  "(int, nat) dict \<Rightarrow> edge_record list \<Rightarrow> (nat \<times> nat) list \<times> nat list \<times> (string, nat) dict
     \<Rightarrow> (nat \<times> nat) list \<times> nat list \<times> (string, nat) dict" where
  "get_graph_data_edges nmap [] acc = acc"
| "get_graph_data_edges nmap ((source_neo4j, target_neo4j, rt) # rs) (es, rel_types, rtm) =
     (case (map_of nmap source_neo4j, map_of nmap target_neo4j) of
        (Some s, Some t) \<Rightarrow>
          (let rel_type = str_or rt ''RELATED_TO'';
               (rtm', r) = (case map_of rtm rel_type of
                              Some r \<Rightarrow> (rtm, r)
                            | None \<Rightarrow> (dict_set rtm rel_type (length rtm), length rtm))
           in get_graph_data_edges nmap rs (es @ [(s, t)], rel_types @ [r], rtm'))
      | _ \<Rightarrow> get_graph_data_edges nmap rs (es, rel_types, rtm))"

definition get_graph_data :: "node_record list \<Rightarrow> edge_record list \<Rightarrow> graph_data" where
  "get_graph_data node_rows edge_rows =
     (let (nmap, ids, labs) = get_graph_data_nodes 0 node_rows ([], [], [])
      in if length ids = 0
         then \<lparr>node_map = [], entity_ids = [], labels = [], edges = [], edge_types = [],
               rel_type_map = []\<rparr>
         else
           let (es, rel_types, rtm) = get_graph_data_edges nmap edge_rows ([], [], [])
           in \<lparr>node_map = nmap, entity_ids = ids, labels = labs, edges = es,
               edge_types = rel_types, rel_type_map = rtm\<rparr>)"

subsection \<open>The model (\<^verbatim>\<open>models/rgcn_model.py\<close>)\<close>

definition zeros :: "nat \<Rightarrow> vec" where
  "zeros n = replicate n 0"

definition vec_add :: "vec \<Rightarrow> vec \<Rightarrow> vec" where
  "vec_add a b = map2 (+) a b"

definition vec_scale :: "real \<Rightarrow> vec \<Rightarrow> vec" where
  "vec_scale c a = map ((*) c) a"

definition vec_sum :: "nat \<Rightarrow> vec list \<Rightarrow> vec" where
  "vec_sum n vs = foldr vec_add vs (zeros n)"

text \<open>The product of a row vector with a matrix of \<open>n\<close> columns.\<close>

definition vec_mat :: "vec \<Rightarrow> matrix \<Rightarrow> nat \<Rightarrow> vec" where
  "vec_mat x W n = vec_sum n (map2 vec_scale x W)"

definition tabulate :: "nat \<Rightarrow> nat \<Rightarrow> (nat \<Rightarrow> nat \<Rightarrow> real) \<Rightarrow> matrix" where
  "tabulate r c f = map (\<lambda>i. map (f i) [0..<c]) [0..<r]"

text \<open>
  One relational convolution layer: a transform per relation index (\<open>weight\<close>, each of
  shape \<open>[in_channels, out_channels]\<close>) and the self-loop transform (\<open>root\<close>).
\<close>

record rgcn_conv =
  in_channels :: nat
  out_channels :: nat
  weight :: "matrix list"
  root :: matrix

text \<open>
  The values a freshly constructed model holds: the random initialisation, or the
  snapshot loaded over it. They are arguments of the constructor, indexed by layer,
  relation, row and column.
\<close>

record init_values =
  emb_init :: "nat \<Rightarrow> nat \<Rightarrow> real"
  weight_init :: "nat \<Rightarrow> nat \<Rightarrow> nat \<Rightarrow> nat \<Rightarrow> real"
  root_init :: "nat \<Rightarrow> nat \<Rightarrow> nat \<Rightarrow> real"

definition RGCNConv_init ::
  "nat \<Rightarrow> nat \<Rightarrow> nat \<Rightarrow> (nat \<Rightarrow> nat \<Rightarrow> nat \<Rightarrow> real) \<Rightarrow> (nat \<Rightarrow> nat \<Rightarrow> real) \<Rightarrow> rgcn_conv" where
  "RGCNConv_init i o' nrel w rt =
     \<lparr>in_channels = i, out_channels = o',
      weight = map (\<lambda>r. tabulate i o' (w r)) [0..<nrel],
      root = tabulate i o' rt\<rparr>"

text \<open>
  Modelled from the spec: \<^verbatim>\<open>RGCNConv\<close> is the layer of the torch_geometric library and
  has no source in the repository. Its forward computation is the per-layer formula of
  the specification: for node \<open>v\<close>, the self-loop transform of its own row plus, for
  each relation \<open>r\<close> of the layer, the sum over the edges \<open>(u, v, r)\<close> of
  \<open>1 / |N_r(v)|\<close> times the relation transform of the row of \<open>u\<close>. An edge whose
  end is not a row of the input is an index error; an input row that is not of the
  layer's declared input dimension, or a list of edge types that is not parallel to
  the list of edges, is a shape error. An edge whose type is not a relation of the
  layer contributes to no sum.
\<close>

definition relation_message ::
  "rgcn_conv \<Rightarrow> matrix \<Rightarrow> (nat \<times> nat) list \<Rightarrow> nat list \<Rightarrow> nat \<Rightarrow> nat \<Rightarrow> vec" where
  "relation_message c x edge_index edge_type v r =
     (let srcs = map (fst \<circ> fst)
                   (filter (\<lambda>((u, v'), t). v' = v \<and> t = r) (zip edge_index edge_type))
      in vec_sum (out_channels c)
           (map (\<lambda>u. vec_scale (1 / real (length srcs))
                        (vec_mat (x ! u) (weight c ! r) (out_channels c))) srcs))"

text \<open>
  Modelled from the spec: the forward computation of \<^verbatim>\<open>RGCNConv\<close> on all nodes, the
  self-loop transform of each row plus its relation messages.
\<close>

definition RGCNConv_forward ::
  "rgcn_conv \<Rightarrow> matrix \<Rightarrow> (nat \<times> nat) list \<Rightarrow> nat list \<Rightarrow> error + matrix" where
  "RGCNConv_forward c x edge_index edge_type =
     (if length edge_type \<noteq> length edge_index then Inl ShapeError
      else if \<not> list_all (\<lambda>(u, v). u < length x \<and> v < length x) edge_index
      then Inl IndexError
      else if \<not> list_all (\<lambda>row. length row = in_channels c) x then Inl ShapeError
      else Inr (map (\<lambda>v. vec_add (vec_mat (x ! v) (root c) (out_channels c))
                           (vec_sum (out_channels c)
                              (map (relation_message c x edge_index edge_type v)
                                 [0..<length (weight c)])))
                  [0..<length x]))"

definition relu :: "matrix \<Rightarrow> matrix" where
  "relu x = map (map (max 0)) x"

record rgcn_model =
  num_nodes :: nat
  num_relations :: nat
  embedding_dim :: nat
  hidden_dim :: nat
  num_layers :: int
  node_embedding :: matrix
  convs :: "rgcn_conv list"

text \<open>The input and output dimension of each layer that \<^verbatim>\<open>RGCNModel.__init__\<close> appends.\<close>

definition conv_dims :: "nat \<Rightarrow> nat \<Rightarrow> int \<Rightarrow> (nat \<times> nat) list" where
  "conv_dims emb hid layers =
     (if layers = 1 then [(emb, emb)]
      else [(emb, hid)] @ replicate (nat (layers - 2)) (hid, hid) @ [(hid, emb)])"

definition RGCNModel_init :: "nat \<Rightarrow> nat \<Rightarrow> nat \<Rightarrow> nat \<Rightarrow> int \<Rightarrow> init_values \<Rightarrow> rgcn_model" where
  "RGCNModel_init nodes rels emb hid layers p =
     \<lparr>num_nodes = nodes, num_relations = rels, embedding_dim = emb, hidden_dim = hid,
      num_layers = layers,
      node_embedding = tabulate nodes emb (emb_init p),
      convs = map (\<lambda>(l, (i, o')). RGCNConv_init i o' rels (weight_init p l) (root_init p l))
                (enumerate 0 (conv_dims emb hid layers))\<rparr>"

text \<open>
  The loop of \<^verbatim>\<open>RGCNModel.forward\<close> over \<^verbatim>\<open>enumerate(self.convs)\<close>: \<open>i\<close> is the index
  of the next layer, \<open>n\<close> is \<^verbatim>\<open>len(self.convs)\<close>.
\<close>

fun forward_loop ::
  "nat \<Rightarrow> nat \<Rightarrow> rgcn_conv list \<Rightarrow> (nat \<times> nat) list \<Rightarrow> nat list \<Rightarrow> matrix \<Rightarrow> error + matrix" where
  "forward_loop i n [] edge_index edge_type x = Inr x"
| "forward_loop i n (c # cs) edge_index edge_type x =
     (case RGCNConv_forward c x edge_index edge_type of
        Inl e \<Rightarrow> Inl e
      | Inr y \<Rightarrow> forward_loop (Suc i) n cs edge_index edge_type
                  (if int i < int n - 1 then relu y else y))"

definition forward :: "rgcn_model \<Rightarrow> (nat \<times> nat) list \<Rightarrow> nat list \<Rightarrow> error + matrix" where
  "forward m edge_index edge_type =
     forward_loop 0 (length (convs m)) (convs m) edge_index edge_type (node_embedding m)"


text \<open>An array of shape \<open>[r, c]\<close>.\<close>

definition has_shape :: "nat \<Rightarrow> nat \<Rightarrow> matrix \<Rightarrow> bool" where
  "has_shape r c M = (length M = r \<and> list_all (\<lambda>row. length row = c) M)"

record rgcn_trainer =
  edge_index :: "(nat \<times> nat) list"
  edge_type :: "nat list"
  num_negative_samples :: nat

subsection \<open>Process state and start-up (\<^verbatim>\<open>app.py\<close>)\<close>

text \<open>
  The module's global variables. The trainer refers to the one model of the state. The
  usage counters of the endpoints are left out.
\<close>

record app_state =
  g_model :: "rgcn_model option"
  g_trainer :: "rgcn_trainer option"
  g_node_to_entity :: "(nat, string) dict"
  g_entity_to_node :: "(string, nat) dict"
  graph_data_cache :: "graph_data option"

definition initial_state :: app_state where
  "initial_state =
     \<lparr>g_model = None, g_trainer = None, g_node_to_entity = [], g_entity_to_node = [],
      graph_data_cache = None\<rparr>"

record config =
  cfg_embedding_dim :: nat
  cfg_hidden_dim :: nat
  cfg_num_layers :: int

text \<open>
  The loop \<^verbatim>\<open>for idx, entity_id in enumerate(entity_ids)\<close> of \<^verbatim>\<open>startup\<close>, on the pair
  \<open>(node_to_entity, entity_to_node)\<close>.
\<close>

fun build_mappings ::
  "nat \<Rightarrow> string list \<Rightarrow> (nat, string) dict \<times> (string, nat) dict
     \<Rightarrow> (nat, string) dict \<times> (string, nat) dict" where
  "build_mappings idx [] maps = maps"
| "build_mappings idx (eid # rest) (n2e, e2n) =
     build_mappings (Suc idx) rest (dict_set n2e idx eid, dict_set e2n eid idx)"

text \<open>
  \<^verbatim>\<open>startup\<close>, after the connector is created: \<open>conn_ok\<close> is the result of the
  connection test, \<open>g\<close> what \<^verbatim>\<open>get_graph_data\<close> returned, \<open>p\<close> the parameter values
  the model ends up with (random, or those of the snapshot on disk).
\<close>

definition startup ::
  "bool \<Rightarrow> graph_data \<Rightarrow> config \<Rightarrow> init_values \<Rightarrow> app_state \<Rightarrow> error + app_state" where
  "startup conn_ok g cfg p st =
     (if \<not> conn_ok then Inr st
      else
        let st1 = st\<lparr>graph_data_cache := Some g\<rparr>;
            nodes = length (entity_ids g);
            rels = length (rel_type_map g)
        in if nodes = 0 then Inr st1
           else
             let (n2e, e2n) =
                   build_mappings 0 (entity_ids g) (g_node_to_entity st1, g_entity_to_node st1);
                 m = RGCNModel_init nodes rels (cfg_embedding_dim cfg) (cfg_hidden_dim cfg)
                       (cfg_num_layers cfg) p
             in Inr (st1\<lparr>g_model := Some m,
                         g_trainer := Some \<lparr>edge_index = edges g, edge_type = edge_types g,
                                            num_negative_samples = 1\<rparr>,
                         g_node_to_entity := n2e,
                         g_entity_to_node := e2n\<rparr>))"

subsection \<open>The embedding service (\<^verbatim>\<open>services/embedding_service.py\<close>)\<close>

record embedding_service =
  model :: rgcn_model
  entity_to_node :: "(string, nat) dict"
  node_to_entity :: "(nat, string) dict"

record similar_entry =
  entity_id :: string
  score :: real
  label :: string

definition dot :: "vec \<Rightarrow> vec \<Rightarrow> real" where
  "dot a b = sum_list (map2 (*) a b)"

definition vec_norm :: "vec \<Rightarrow> real" where
  "vec_norm a = sqrt (dot a a)"

text \<open>
  Modelled from the spec: \<^verbatim>\<open>cosine_similarity\<close> is imported from scikit-learn and has no
  source in the repository. The specification defines it as \<open>(a\<cdot>b) / (||a|| \<cdot> ||b||)\<close>,
  and as 0 when either vector has zero norm.
\<close>

definition cosine_similarity :: "vec \<Rightarrow> vec \<Rightarrow> real" where
  "cosine_similarity a b =
     (if vec_norm a = 0 \<or> vec_norm b = 0 then 0 else dot a b / (vec_norm a * vec_norm b))"

text \<open>
  The loop of \<^verbatim>\<open>get_embeddings\<close> over \<^verbatim>\<open>self.node_to_entity.items()\<close>, filling
  \<open>result\<close> from the rows of the embedding table.
\<close>

fun all_embeddings_loop ::
  "matrix \<Rightarrow> (nat, string) dict \<Rightarrow> (string, vec) dict \<Rightarrow> error + (string, vec) dict" where
  "all_embeddings_loop embeddings [] result = Inr result"
| "all_embeddings_loop embeddings ((node_idx, eid) # rest) result =
     (if node_idx < length embeddings
      then all_embeddings_loop embeddings rest (dict_set result eid (embeddings ! node_idx))
      else Inl IndexError)"

text \<open>
  The loop of \<^verbatim>\<open>get_embeddings\<close> over the requested identifiers, on the pair
  \<open>(node_indices, valid_entity_ids)\<close>.
\<close>

fun collect_valid ::
  "(string, nat) dict \<Rightarrow> string list \<Rightarrow> nat list \<times> string list \<Rightarrow> nat list \<times> string list" where
  "collect_valid e2n [] acc = acc"
| "collect_valid e2n (eid # rest) (node_indices, valid_entity_ids) =
     (case map_of e2n eid of
        Some i \<Rightarrow> collect_valid e2n rest (node_indices @ [i], valid_entity_ids @ [eid])
      | None \<Rightarrow> collect_valid e2n rest (node_indices, valid_entity_ids))"

definition get_embeddings ::
  "embedding_service \<Rightarrow> string list option \<Rightarrow> error + (string, vec) dict" where
  "get_embeddings svc req =
     (case req of
        None \<Rightarrow> all_embeddings_loop (node_embedding (model svc)) (node_to_entity svc) []
      | Some ids \<Rightarrow>
          let (node_indices, valid_entity_ids) = collect_valid (entity_to_node svc) ids ([], [])
          in if node_indices = [] then Inr []
             else if list_all (\<lambda>i. i < length (node_embedding (model svc))) node_indices
             then Inr (dict_of_pairs
                         (zip valid_entity_ids
                            (map (\<lambda>i. node_embedding (model svc) ! i) node_indices)))
             else Inl IndexError)"

text \<open>
  \<^verbatim>\<open>similarities.sort(key=lambda x: x['score'], reverse=True)\<close>: Python's sort is stable,
  and with \<^verbatim>\<open>reverse=True\<close> entries of equal key keep their original order.
\<close>

definition sort_by_score_desc :: "similar_entry list \<Rightarrow> similar_entry list" where
  "sort_by_score_desc xs = sort_key (\<lambda>s. - score s) xs"

text \<open>The entries appended to \<open>similarities\<close>, in the order of \<^verbatim>\<open>all_embeddings.items()\<close>.\<close>

definition candidates :: "string \<Rightarrow> vec \<Rightarrow> (string, vec) dict \<Rightarrow> similar_entry list" where
  "candidates eid query_emb all_embeddings =
     map (\<lambda>(other_entity_id, other_emb).
            \<lparr>entity_id = other_entity_id,
             score = cosine_similarity query_emb other_emb,
             label = ''Entity''\<rparr>)
       (filter (\<lambda>(other_entity_id, other_emb). other_entity_id \<noteq> eid) all_embeddings)"

definition find_similar_entities ::
  "embedding_service \<Rightarrow> string \<Rightarrow> int \<Rightarrow> error + similar_entry list" where
  "find_similar_entities svc eid top_k =
     (if \<not> dict_has (entity_to_node svc) eid then Inr []
      else
        (case get_embeddings svc (Some [eid]) of
           Inl e \<Rightarrow> Inl e
         | Inr query_embedding \<Rightarrow>
             if query_embedding = [] then Inr []
             else
               (case map_of query_embedding eid of
                  None \<Rightarrow> Inl KeyError
                | Some query_emb \<Rightarrow>
                    (case get_embeddings svc None of
                       Inl e \<Rightarrow> Inl e
                     | Inr all_embeddings \<Rightarrow>
                         Inr (py_slice_to
                                (sort_by_score_desc (candidates eid query_emb all_embeddings))
                                top_k)))))"

text \<open>
  \<^verbatim>\<open>compute_similarity_matrix\<close>: the rows of the requested identifiers that resolved, in
  request order, and their pairwise similarities.
\<close>

definition compute_similarity_matrix :: "embedding_service \<Rightarrow> string list \<Rightarrow> error + matrix" where
  "compute_similarity_matrix svc ids =
     (case get_embeddings svc (Some ids) of
        Inl e \<Rightarrow> Inl e
      | Inr embeddings \<Rightarrow>
          if embeddings = [] then Inr []
          else let emb_matrix = List.map_filter (map_of embeddings) ids
               in if concat emb_matrix = [] then Inr []
                  else Inr (map (\<lambda>a. map (cosine_similarity a) emb_matrix) emb_matrix))"

subsection \<open>The endpoints (\<^verbatim>\<open>app.py\<close>)\<close>

definition service_of :: "app_state \<Rightarrow> error + embedding_service" where
  "service_of st =
     (case g_model st of
        None \<Rightarrow> Inl (HTTPException 503 ''Model not loaded'')
      | Some m \<Rightarrow> Inr \<lparr>model = m, entity_to_node = g_entity_to_node st,
                       node_to_entity = g_node_to_entity st\<rparr>)"

definition embeddings_endpoint :: "app_state \<Rightarrow> string list \<Rightarrow> error + (string, vec) dict" where
  "embeddings_endpoint st ids =
     (case service_of st of Inl e \<Rightarrow> Inl e | Inr svc \<Rightarrow> get_embeddings svc (Some ids))"

definition find_similar :: "app_state \<Rightarrow> string \<Rightarrow> int \<Rightarrow> error + similar_entry list" where
  "find_similar st eid top_k =
     (case service_of st of Inl e \<Rightarrow> Inl e | Inr svc \<Rightarrow> find_similar_entities svc eid top_k)"

subsection \<open>Shapes of the layers\<close>

text \<open>The parameter arrays of a layer have the shape its dimensions declare.\<close>

definition conv_ok :: "rgcn_conv \<Rightarrow> bool" where
  "conv_ok c =
     (has_shape (in_channels c) (out_channels c) (root c) \<and>
      list_all (has_shape (in_channels c) (out_channels c)) (weight c))"

text \<open>
  Starting from rows of dimension \<open>d\<close>, each layer of the list takes the dimension
  the previous one produces; \<open>final_dim\<close> is the dimension the last one produces.
\<close>

fun chained :: "nat \<Rightarrow> rgcn_conv list \<Rightarrow> bool" where
  "chained d [] = True"
| "chained d (c # cs) = (in_channels c = d \<and> chained (out_channels c) cs)"

fun final_dim :: "nat \<Rightarrow> rgcn_conv list \<Rightarrow> nat" where
  "final_dim d [] = d"
| "final_dim d (c # cs) = final_dim (out_channels c) cs"

subsection \<open>Services over a graph index\<close>

text \<open>
  Every node index held by the two mappings of the service is a row of the embedding
  table of its model.
\<close>

definition service_ok :: "embedding_service \<Rightarrow> bool" where
  "service_ok svc =
     (list_all (\<lambda>(e, i). i < length (node_embedding (model svc))) (entity_to_node svc) \<and>
      list_all (\<lambda>(i, e). i < length (node_embedding (model svc))) (node_to_entity svc))"

text \<open>
  The service the endpoints build after start-up on a graph with the identifiers
  \<open>ids\<close>: its mappings are those of the start-up loop, and its model has one
  embedding row per node, with any parameter values.
\<close>

definition built_from :: "string list \<Rightarrow> embedding_service \<Rightarrow> bool" where
  "built_from ids svc =
     ((node_to_entity svc, entity_to_node svc) = build_mappings 0 ids ([], []) \<and>
      length (node_embedding (model svc)) = length ids)"

text \<open>The graph index resolves the first entry to a lower node index than the second.\<close>

definition lower_node_index :: "(string, nat) dict \<Rightarrow> similar_entry \<Rightarrow> similar_entry \<Rightarrow> bool" where
  "lower_node_index e2n a b =
     (case (map_of e2n (entity_id a), map_of e2n (entity_id b)) of
        (Some i, Some j) \<Rightarrow> i < j
      | _ \<Rightarrow> False)"

subsection \<open>Example inputs\<close>

definition cfg0 :: config where
  "cfg0 = \<lparr>cfg_embedding_dim = 1, cfg_hidden_dim = 1, cfg_num_layers = 1\<rparr>"

definition p0 :: init_values where
  "p0 = \<lparr>emb_init = (\<lambda>i j. real (Suc i)), weight_init = (\<lambda>l r i j. 1),
         root_init = (\<lambda>l i j. 2)\<rparr>"

text \<open>Two nodes of the database that carry the same \<^verbatim>\<open>id\<close> property.\<close>

definition dup_rows :: "node_record list" where
  "dup_rows = [(10, Some ''A'', Some ''Person''), (11, Some ''A'', Some ''Company'')]"

definition dup_graph :: graph_data where
  "dup_graph = \<lparr>node_map = [(10, 0), (11, 1)],
                 entity_ids = [''A'', ''A''], labels = [''Person'', ''Company''],
                 edges = [], edge_types = [], rel_type_map = []\<rparr>"

text \<open>The example scenario of the specification: entities A, B, C and two LIKES edges.\<close>

definition abc_graph :: graph_data where
  "abc_graph = \<lparr>node_map = [(0, 0), (1, 1), (2, 2)],
                 entity_ids = [''A'', ''B'', ''C''], labels = [''Entity'', ''Entity'', ''Entity''],
                 edges = [(0, 1), (1, 2)], edge_types = [0, 0],
                 rel_type_map = [(''LIKES'', 0)]\<rparr>"

definition abc_node_rows :: "node_record list" where
  "abc_node_rows = [(0, Some ''A'', None), (1, Some ''B'', None), (2, Some ''C'', None)]"

definition abc_edge_rows :: "edge_record list" where
  "abc_edge_rows = [(0, 1, Some ''LIKES''), (1, 2, Some ''LIKES'')]"

definition abc_state :: app_state where
  "abc_state = projr (startup True abc_graph cfg0 p0 initial_state)"

text \<open>Four nodes, the first and the third with the same identifier.\<close>

definition abaq_graph :: graph_data where
  "abaq_graph = \<lparr>node_map = [(0, 0), (1, 1), (2, 2), (3, 3)],
                  entity_ids = [''A'', ''B'', ''A'', ''Q''],
                  labels = [''Entity'', ''Entity'', ''Entity'', ''Entity''],
                  edges = [], edge_types = [], rel_type_map = []\<rparr>"

definition abaq_state :: app_state where
  "abaq_state = projr (startup True abaq_graph cfg0 p0 initial_state)"

definition abc_service :: embedding_service where
  "abc_service = projr (service_of abc_state)"

definition abaq_service :: embedding_service where
  "abaq_service = projr (service_of abaq_state)"

text \<open>The graph of an empty database.\<close>

definition empty_graph :: graph_data where
  "empty_graph = \<lparr>node_map = [], entity_ids = [], labels = [], edges = [], edge_types = [],
                   rel_type_map = []\<rparr>"


section \<open>The graph index\<close>

lemma update_fresh: "k \<notin> fst ` set al \<Longrightarrow> AList.update k v al = al @ [(k, v)]"
  by (induction al) auto

lemma upt_shift_Cons: "[k..<k + length (e # es)] = k # [Suc k..<Suc k + length es]"
proof -
  have "[k..<Suc (k + length es)] = k # [Suc k..<Suc (k + length es)]"
    by (rule upt_conv_Cons) simp
  then show ?thesis by simp
qed

text \<open>The indices are fresh keys, so \<open>node_to_entity\<close> lists the identifiers in index order.\<close>

lemma build_mappings_n2e:
  "\<forall>i \<in> fst ` set n2e. i < k \<Longrightarrow>
   fst (build_mappings k ids (n2e, e2n)) = n2e @ zip [k..<k + length ids] ids"
proof (induction ids arbitrary: k n2e e2n)
  case Nil
  then show ?case by simp
next
  case (Cons e es)
  have fresh: "k \<notin> fst ` set n2e" using Cons.prems by auto
  have bound: "\<forall>i \<in> fst ` set (dict_set n2e k e). i < Suc k"
    using Cons.prems by (auto simp: dict_set_def update_fresh [OF fresh] less_Suc_eq)
  show ?case
    using Cons.IH [OF bound, of "dict_set e2n e k"] upt_shift_Cons [of k e es]
    by (simp add: dict_set_def update_fresh [OF fresh])
qed

lemma build_mappings_e2n_keys:
  "fst ` set (snd (build_mappings k ids (n2e, e2n))) = fst ` set e2n \<union> set ids"
  by (induction ids arbitrary: k n2e e2n) (auto simp: dict_set_def dom_update)

lemma build_mappings_e2n_distinct:
  "distinct (map fst e2n) \<Longrightarrow> distinct (map fst (snd (build_mappings k ids (n2e, e2n))))"
  by (induction ids arbitrary: k n2e e2n) (auto simp: dict_set_def distinct_update)

text \<open>An identifier that occurs twice takes one key of \<open>entity_to_node\<close>.\<close>

lemma build_mappings_e2n_length:
  "length (snd (build_mappings 0 ids ([], []))) = card (set ids)"
proof -
  let ?e2n = "snd (build_mappings 0 ids ([], []))"
  have d: "distinct (map fst ?e2n)" by (rule build_mappings_e2n_distinct) simp
  have "set (map fst ?e2n) = set ids" using build_mappings_e2n_keys [of 0 ids "[]" "[]"] by simp
  then have "card (set ids) = length (map fst ?e2n)" using distinct_card [OF d] by simp
  then show ?thesis by simp
qed

lemma build_mappings_e2n_closed:
  "distinct ids \<Longrightarrow> set ids \<inter> fst ` set e2n = {} \<Longrightarrow>
   snd (build_mappings k ids (n2e, e2n)) = e2n @ zip ids [k..<k + length ids]"
proof (induction ids arbitrary: k n2e e2n)
  case Nil
  then show ?case by simp
next
  case (Cons e es)
  have fresh: "e \<notin> fst ` set e2n" using Cons.prems by auto
  have disj: "set es \<inter> fst ` set (dict_set e2n e k) = {}"
    using Cons.prems by (auto simp: dict_set_def update_fresh [OF fresh])
  have d: "distinct es" using Cons.prems by simp
  show ?case
    using Cons.IH [OF d disj, of "Suc k" "dict_set n2e k e"] upt_shift_Cons [of k e es]
    by (simp add: dict_set_def update_fresh [OF fresh])
qed

lemma n2e_closed: "fst (build_mappings 0 ids ([], [])) = zip [0..<length ids] ids"
  using build_mappings_n2e [of "[]" 0 ids "[]"] by simp

lemma e2n_closed: "distinct ids \<Longrightarrow> snd (build_mappings 0 ids ([], [])) = zip ids [0..<length ids]"
  using build_mappings_e2n_closed [of ids "[]" 0 "[]"] by simp

lemma map_of_zip_upt:
  "map_of (zip [0..<length ids] ids) i = (if i < length ids then Some (ids ! i) else None)"
proof (cases "i < length ids")
  case True
  have "map_of (zip [0..<length ids] ids) ([0..<length ids] ! i) = Some (ids ! i)"
    by (rule map_of_zip_nth) (use True in auto)
  then show ?thesis using True by simp
next
  case False
  then have "i \<notin> set [0..<length ids]" by simp
  then have "map_of (zip [0..<length ids] ids) i = None"
    by simp
  then show ?thesis using False by simp
qed

lemma map_of_zip_distinct_index:
  "distinct ids \<Longrightarrow>
   (map_of (zip ids [0..<length ids]) e = Some i) = (i < length ids \<and> ids ! i = e)"
proof
  assume d: "distinct ids" and h: "map_of (zip ids [0..<length ids]) e = Some i"
  from h have "(e, i) \<in> set (zip ids [0..<length ids])" by (rule map_of_SomeD)
  then obtain j where "j < length ids" "ids ! j = e" "[0..<length ids] ! j = i"
    by (auto simp: set_zip)
  then show "i < length ids \<and> ids ! i = e" by simp
next
  assume d: "distinct ids" and h: "i < length ids \<and> ids ! i = e"
  have "map_of (zip ids [0..<length ids]) (ids ! i) = Some ([0..<length ids] ! i)"
    by (rule map_of_zip_nth) (use d h in auto)
  then show "map_of (zip ids [0..<length ids]) e = Some i" using h by simp
qed

text \<open>
  Start-up from the initial state never raises; the mappings it leaves are those of the
  loop over \<open>entity_ids\<close> (both empty when there is no entity).
\<close>

lemma startup_mappings:
  "\<exists>st. startup True g cfg p initial_state = Inr st \<and>
        (g_node_to_entity st, g_entity_to_node st) = build_mappings 0 (entity_ids g) ([], [])"
proof (cases "entity_ids g = []")
  case True
  then show ?thesis by (simp add: startup_def initial_state_def)
next
  case False
  then show ?thesis
    by (simp add: startup_def initial_state_def Let_def split: prod.splits)
qed

text \<open>
  C5 (as amended). Start-up from the initial state returns normally for every graph, with
  \<open>len(node_to_entity) = num_nodes\<close> and \<open>len(entity_to_node)\<close> the number of
  different identifiers in \<open>entity_ids\<close>. The two lengths agree exactly when the
  identifiers are pairwise distinct, and then the two mappings are exact inverses of
  each other.
\<close>

theorem mappings_inverse_iff_distinct:
  "\<exists>st. startup True g cfg p initial_state = Inr st \<and>
        length (g_node_to_entity st) = length (entity_ids g) \<and>
        length (g_entity_to_node st) = card (set (entity_ids g)) \<and>
        (length (g_entity_to_node st) = length (g_node_to_entity st)) = distinct (entity_ids g) \<and>
        (distinct (entity_ids g) \<longrightarrow>
           (\<forall>e i. (map_of (g_entity_to_node st) e = Some i) =
                  (map_of (g_node_to_entity st) i = Some e)))"
proof -
  obtain st where st: "startup True g cfg p initial_state = Inr st"
    and maps: "(g_node_to_entity st, g_entity_to_node st) = build_mappings 0 (entity_ids g) ([], [])"
    using startup_mappings by blast
  let ?ids = "entity_ids g"
  have n2e: "g_node_to_entity st = zip [0..<length ?ids] ?ids"
    using maps n2e_closed [of ?ids] by (metis fst_conv)
  have e2n: "g_entity_to_node st = snd (build_mappings 0 ?ids ([], []))"
    using maps by (metis snd_conv)
  have len_n2e: "length (g_node_to_entity st) = length ?ids" by (simp add: n2e)
  have len_e2n: "length (g_entity_to_node st) = card (set ?ids)"
    by (simp add: e2n build_mappings_e2n_length)
  have iff: "(length (g_entity_to_node st) = length (g_node_to_entity st)) = distinct ?ids"
    unfolding len_n2e len_e2n using card_distinct [of ?ids] distinct_card [of ?ids] by auto
  have inv: "(map_of (g_entity_to_node st) e = Some i) = (map_of (g_node_to_entity st) i = Some e)"
    if d: "distinct ?ids" for e i
    unfolding e2n n2e e2n_closed [OF d] map_of_zip_distinct_index [OF d] map_of_zip_upt
    by auto
  show ?thesis using st len_n2e len_e2n iff inv by blast
qed

text \<open>On the example scenario of the specification, B is node 1 in both directions.\<close>

theorem mappings_inverse_iff_distinct_witness:
  "distinct (entity_ids abc_graph) \<and>
   length (g_entity_to_node (projr (startup True abc_graph cfg0 p0 initial_state))) = 3 \<and>
   map_of (g_entity_to_node (projr (startup True abc_graph cfg0 p0 initial_state))) ''B'' = Some 1 \<and>
   map_of (g_node_to_entity (projr (startup True abc_graph cfg0 p0 initial_state))) 1 = Some ''B''"
proof -
  have d: "distinct (entity_ids abc_graph)" by (simp add: abc_graph_def)
  obtain st where st: "startup True abc_graph cfg0 p0 initial_state = Inr st"
    and len: "length (g_entity_to_node st) = card (set (entity_ids abc_graph))"
    and inv: "\<And>e i. (map_of (g_entity_to_node st) e = Some i) = (map_of (g_node_to_entity st) i = Some e)"
    using mappings_inverse_iff_distinct [of abc_graph cfg0 p0] d by blast
  have n: "g_node_to_entity st = [(0, ''A''), (1, ''B''), (2, ''C'')]"
    using st by (auto simp: startup_def abc_graph_def initial_state_def dict_set_def)
  have "map_of (g_node_to_entity st) 1 = Some ''B''" by (simp add: n)
  moreover from this have "map_of (g_entity_to_node st) ''B'' = Some 1" using inv by simp
  moreover have "length (g_entity_to_node st) = 3" using len by (simp add: abc_graph_def)
  ultimately show ?thesis using d st by simp
qed

text \<open>
  C5 as stated fails when two nodes carry the same identifier: the connector passes both
  on, and start-up then leaves two entries in \<open>node_to_entity\<close> and one in
  \<open>entity_to_node\<close>.
\<close>

theorem mappings_bijection_counterexample:
  "get_graph_data dup_rows [] = dup_graph \<and>
   g_node_to_entity (projr (startup True dup_graph cfg0 p0 initial_state)) = [(0, ''A''), (1, ''A'')] \<and>
   g_entity_to_node (projr (startup True dup_graph cfg0 p0 initial_state)) = [(''A'', 1)] \<and>
   length (g_entity_to_node (projr (startup True dup_graph cfg0 p0 initial_state))) \<noteq>
   length (g_node_to_entity (projr (startup True dup_graph cfg0 p0 initial_state)))"
  by (simp add: get_graph_data_def dup_rows_def dup_graph_def startup_def initial_state_def
      dict_set_def)

section \<open>Dictionaries\<close>

lemma map_of_dict_set: "map_of (dict_set d k v) = (map_of d)(k \<mapsto> v)"
  by (simp add: dict_set_def update_conv')

lemma keys_dict_set: "fst ` set (dict_set d k v) = insert k (fst ` set d)"
  by (simp add: dict_set_def dom_update)

lemma map_of_dict_fold:
  "map_of (foldl (\<lambda>d (k, v). dict_set d k v) d ps) = map_of d ++ map_of (rev ps)"
proof (induction ps arbitrary: d)
  case Nil
  then show ?case by simp
next
  case (Cons a ps)
  obtain k v where a: "a = (k, v)" by (cases a)
  have "map_of (foldl (\<lambda>d (k, v). dict_set d k v) (dict_set d k v) ps) =
        (map_of d)(k \<mapsto> v) ++ map_of (rev ps)"
    by (simp only: Cons.IH map_of_dict_set)
  also have "\<dots> = map_of d ++ ([k \<mapsto> v] ++ map_of (rev ps))"
    by (auto simp: fun_eq_iff map_add_def split: option.splits)
  finally show ?case by (simp add: a)
qed

lemma map_of_dict_of_pairs: "map_of (dict_of_pairs ps) = map_of (rev ps)"
  by (simp add: dict_of_pairs_def map_of_dict_fold)

lemma keys_dict_fold:
  "fst ` set (foldl (\<lambda>d (k, v). dict_set d k v) d ps) = fst ` set d \<union> fst ` set ps"
proof (induction ps arbitrary: d)
  case Nil
  then show ?case by simp
next
  case (Cons a ps)
  obtain k v where a: "a = (k, v)" by (cases a)
  show ?case by (simp add: a Cons.IH keys_dict_set)
qed

lemma keys_dict_of_pairs: "fst ` set (dict_of_pairs ps) = fst ` set ps"
  by (simp add: dict_of_pairs_def keys_dict_fold)

section \<open>Reading embeddings\<close>

lemma collect_valid_closed:
  "collect_valid e2n ids (ni, vi) =
     (ni @ List.map_filter (map_of e2n) ids, vi @ filter (dict_has e2n) ids)"
  by (induction ids arbitrary: ni vi)
     (auto simp: dict_has_def split: option.splits)

lemma service_ok_lookup:
  "service_ok svc \<Longrightarrow> map_of (entity_to_node svc) e = Some i \<Longrightarrow>
   i < length (node_embedding (model svc))"
  by (auto simp: service_ok_def list_all_iff dest: map_of_SomeD)

lemma map_filter_in_range:
  "service_ok svc \<Longrightarrow>
   list_all (\<lambda>i. i < length (node_embedding (model svc)))
     (List.map_filter (map_of (entity_to_node svc)) ids)"
  by (auto simp: list_all_iff map_filter_def dest: service_ok_lookup)

lemma valid_pairs:
  "zip (filter (dict_has e2n) ids) (map f (List.map_filter (map_of e2n) ids)) =
   map (\<lambda>e. (e, f (the (map_of e2n e)))) (filter (dict_has e2n) ids)"
  by (induction ids) (auto simp: dict_has_def split: option.splits)

lemma map_filter_Nil_iff:
  "(List.map_filter (map_of e2n) ids = []) = (filter (dict_has e2n) ids = [])"
  by (induction ids) (auto simp: dict_has_def split: option.splits)

text \<open>The result of a request, for a service whose indices are rows of the table.\<close>

lemma get_embeddings_Some:
  assumes "service_ok svc"
  shows "get_embeddings svc (Some ids) =
           Inr (dict_of_pairs
                  (map (\<lambda>e. (e, node_embedding (model svc) ! the (map_of (entity_to_node svc) e)))
                     (filter (dict_has (entity_to_node svc)) ids)))"
proof (cases "filter (dict_has (entity_to_node svc)) ids = []")
  case True
  then show ?thesis
    by (simp add: get_embeddings_def collect_valid_closed map_filter_Nil_iff dict_of_pairs_def)
next
  case False
  then show ?thesis
    using map_filter_in_range [OF assms, of ids]
    by (simp add: get_embeddings_def collect_valid_closed map_filter_Nil_iff valid_pairs)
qed

lemma map_of_rev_keyed:
  "map_of (rev (map (\<lambda>e. (e, f e)) ks)) e = (if e \<in> set ks then Some (f e) else None)"
  by (induction ks) (auto simp: map_add_def split: option.splits)

lemma get_embeddings_single:
  assumes "service_ok svc" "map_of (entity_to_node svc) e = Some i"
  shows "get_embeddings svc (Some [e]) = Inr [(e, node_embedding (model svc) ! i)]"
  using assms by (simp add: get_embeddings_Some dict_has_def dict_of_pairs_def dict_set_def)

lemma all_embeddings_loop_total:
  "list_all (\<lambda>(i, e). i < length emb) n2e \<Longrightarrow>
   all_embeddings_loop emb n2e acc = Inr (foldl (\<lambda>d (i, e). dict_set d e (emb ! i)) acc n2e)"
  by (induction n2e arbitrary: acc) auto

lemma get_embeddings_None:
  "service_ok svc \<Longrightarrow>
   get_embeddings svc None =
     Inr (foldl (\<lambda>d (i, e). dict_set d e (node_embedding (model svc) ! i)) [] (node_to_entity svc))"
  by (simp add: get_embeddings_def service_ok_def all_embeddings_loop_total)

section \<open>Ranking\<close>

lemma insort_key_tie:
  assumes "sorted_wrt (\<lambda>a b. f a < f b \<or> (f a = f b \<and> R a b)) ys"
    and "\<forall>y \<in> set ys. R x y"
  shows "sorted_wrt (\<lambda>a b. f a < f b \<or> (f a = f b \<and> R a b)) (insort_key f x ys)"
  using assms
proof (induction ys)
  case Nil
  then show ?case by simp
next
  case (Cons y ys)
  show ?case
  proof (cases "f x \<le> f y")
    case True
    have "f x < f z \<or> (f x = f z \<and> R x z)" if "z \<in> set (y # ys)" for z
    proof -
      have "f y \<le> f z" using Cons.prems(1) that by auto
      then have "f x \<le> f z" using True by simp
      moreover have "R x z" using Cons.prems(2) that by auto
      ultimately show ?thesis by auto
    qed
    then show ?thesis using True Cons.prems(1) by simp
  next
    case False
    then have "f y < f x" by simp
    then show ?thesis using False Cons by (auto simp: set_insort_key)
  qed
qed

lemma sort_key_tie:
  "sorted_wrt R xs \<Longrightarrow>
   sorted_wrt (\<lambda>a b. f a < f b \<or> (f a = f b \<and> R a b)) (sort_key f xs)"
proof (induction xs)
  case Nil
  then show ?case by simp
next
  case (Cons x xs)
  then have "sorted_wrt (\<lambda>a b. f a < f b \<or> (f a = f b \<and> R a b)) (sort_key f xs)"
    and "\<forall>y \<in> set (sort_key f xs). R x y"
    by auto
  then show ?case by (simp add: insort_key_tie)
qed

lemma sort_by_score_desc_tie:
  assumes "sorted_wrt R xs"
  shows "sorted_wrt (\<lambda>a b. score b < score a \<or> (score a = score b \<and> R a b))
           (sort_by_score_desc xs)"
proof -
  have "sorted_wrt (\<lambda>a b. - score a < - score b \<or> (- score a = - score b \<and> R a b))
          (sort_key (\<lambda>s. - score s) xs)"
    using assms by (rule sort_key_tie)
  then show ?thesis by (simp add: sort_by_score_desc_def)
qed

lemma sort_by_score_desc_sorted:
  "sorted_wrt (\<lambda>a b. score b \<le> score a) (sort_by_score_desc xs)"
proof -
  have "sorted (map (\<lambda>s. - score s) (sort_key (\<lambda>s. - score s) xs))"
    by (rule sorted_sort_key)
  then show ?thesis by (simp add: sort_by_score_desc_def sorted_map)
qed

lemma set_sort_by_score_desc: "set (sort_by_score_desc xs) = set xs"
  by (simp add: sort_by_score_desc_def)

lemma length_sort_by_score_desc: "length (sort_by_score_desc xs) = length xs"
  by (simp add: sort_by_score_desc_def)

lemma sorted_wrt_py_slice_to: "sorted_wrt P xs \<Longrightarrow> sorted_wrt P (py_slice_to xs k)"
  by (simp add: py_slice_to_def)

lemma set_py_slice_to: "set (py_slice_to xs k) \<subseteq> set xs"
  by (auto simp: py_slice_to_def dest: in_set_takeD)

lemma candidates_label: "s \<in> set (candidates e q d) \<Longrightarrow> label s = ''Entity''"
  by (auto simp: candidates_def)

text \<open>A query on a mapped identifier returns the ranked candidates, cut by the slice.\<close>

lemma find_similar_entities_mapped:
  assumes ok: "service_ok svc" and i: "map_of (entity_to_node svc) e = Some i"
  shows "find_similar_entities svc e k =
           Inr (py_slice_to
                  (sort_by_score_desc
                     (candidates e (node_embedding (model svc) ! i)
                        (foldl (\<lambda>d (j, e'). dict_set d e' (node_embedding (model svc) ! j)) []
                           (node_to_entity svc))))
                  k)"
  using i
  by (simp add: find_similar_entities_def dict_has_def get_embeddings_single [OF ok i]
      get_embeddings_None [OF ok])

lemma find_similar_entities_unmapped:
  "map_of (entity_to_node svc) e = None \<Longrightarrow> find_similar_entities svc e k = Inr []"
  by (simp add: find_similar_entities_def dict_has_def)

section \<open>The example services, evaluated\<close>

lemma abc_service_maps:
  "entity_to_node abc_service = [(''A'', 0), (''B'', 1), (''C'', 2)] \<and>
   node_to_entity abc_service = [(0, ''A''), (1, ''B''), (2, ''C'')]"
  by (simp add: abc_service_def service_of_def abc_state_def startup_def abc_graph_def
      initial_state_def cfg0_def dict_set_def)

lemma abc_service_emb: "node_embedding (model abc_service) = [[1], [2], [3]]"
  by (simp add: abc_service_def service_of_def abc_state_def startup_def abc_graph_def
      initial_state_def cfg0_def dict_set_def RGCNModel_init_def tabulate_def p0_def
      eval_nat_numeral)

lemma abaq_service_maps:
  "entity_to_node abaq_service = [(''A'', 2), (''B'', 1), (''Q'', 3)] \<and>
   node_to_entity abaq_service = [(0, ''A''), (1, ''B''), (2, ''A''), (3, ''Q'')]"
  by (simp add: abaq_service_def service_of_def abaq_state_def startup_def abaq_graph_def
      initial_state_def cfg0_def dict_set_def)

lemma abaq_service_emb: "node_embedding (model abaq_service) = [[1], [2], [3], [4]]"
  by (simp add: abaq_service_def service_of_def abaq_state_def startup_def abaq_graph_def
      initial_state_def cfg0_def dict_set_def RGCNModel_init_def tabulate_def p0_def
      eval_nat_numeral)

lemma cosine_similarity_positive: "0 < a \<Longrightarrow> 0 < b \<Longrightarrow> cosine_similarity [a] [b] = 1"
  by (simp add: cosine_similarity_def vec_norm_def dot_def)

lemma abc_service_ok: "service_ok abc_service"
  by (simp add: abc_service_maps service_ok_def abc_service_emb)

lemma abaq_service_ok: "service_ok abaq_service"
  by (simp add: abaq_service_maps service_ok_def abaq_service_emb)

lemma abc_find_similar_A:
  "find_similar_entities abc_service ''A'' k =
     Inr (py_slice_to [\<lparr>entity_id = ''B'', score = 1, label = ''Entity''\<rparr>,
                       \<lparr>entity_id = ''C'', score = 1, label = ''Entity''\<rparr>] k)"
proof -
  have "map_of (entity_to_node abc_service) ''A'' = Some 0" by (simp add: abc_service_maps)
  from find_similar_entities_mapped [OF abc_service_ok this, of k]
  show ?thesis
    by (simp add: abc_service_maps abc_service_emb dict_set_def candidates_def
        cosine_similarity_positive sort_by_score_desc_def)
qed

lemma abaq_find_similar_Q:
  "find_similar_entities abaq_service ''Q'' k =
     Inr (py_slice_to [\<lparr>entity_id = ''A'', score = 1, label = ''Entity''\<rparr>,
                       \<lparr>entity_id = ''B'', score = 1, label = ''Entity''\<rparr>] k)"
proof -
  have "map_of (entity_to_node abaq_service) ''Q'' = Some 3" by (simp add: abaq_service_maps)
  from find_similar_entities_mapped [OF abaq_service_ok this, of k]
  show ?thesis
    by (simp add: abaq_service_maps abaq_service_emb dict_set_def candidates_def
        cosine_similarity_positive sort_by_score_desc_def)
qed

section \<open>Similarity queries\<close>

text \<open>
  C10. For a service whose node indices are rows of the embedding table, every query
  returns a list (for any identifier and any \<open>top_k\<close>), and every entry of that
  list has the label \<open>Entity\<close>, whatever the label of the node in the graph.
\<close>

theorem find_similar_label_constant:
  assumes ok: "service_ok svc"
  shows "\<exists>r. find_similar_entities svc e k = Inr r \<and> (\<forall>s \<in> set r. label s = ''Entity'')"
proof (cases "map_of (entity_to_node svc) e")
  case None
  then show ?thesis by (simp add: find_similar_entities_unmapped)
next
  case (Some i)
  let ?c = "candidates e (node_embedding (model svc) ! i)
              (foldl (\<lambda>d (j, e'). dict_set d e' (node_embedding (model svc) ! j)) []
                 (node_to_entity svc))"
  have "set (py_slice_to (sort_by_score_desc ?c) k) \<subseteq> set ?c"
    using set_py_slice_to [of "sort_by_score_desc ?c" k] by (simp add: set_sort_by_score_desc)
  then have "\<forall>s \<in> set (py_slice_to (sort_by_score_desc ?c) k). label s = ''Entity''"
    using candidates_label by blast
  then show ?thesis by (simp add: find_similar_entities_mapped [OF ok Some])
qed

text \<open>On the example scenario, the one neighbour returned for A carries that label.\<close>

theorem find_similar_label_constant_witness:
  "service_ok abc_service \<and>
   find_similar_entities abc_service ''A'' 1 =
     Inr [\<lparr>entity_id = ''B'', score = 1, label = ''Entity''\<rparr>] \<and>
   label (hd (projr (find_similar_entities abc_service ''A'' 1))) = ''Entity''"
proof -
  obtain r where r: "find_similar_entities abc_service ''A'' 1 = Inr r"
    and l: "\<forall>s \<in> set r. label s = ''Entity''"
    using find_similar_label_constant [OF abc_service_ok, of "''A''" 1] by blast
  have e: "r = [\<lparr>entity_id = ''B'', score = 1, label = ''Entity''\<rparr>]"
    using r by (simp add: abc_find_similar_A py_slice_to_def)
  have "label (hd r) = ''Entity''" using l e by simp
  then show ?thesis using r e abc_service_ok by simp
qed

text \<open>
  C8. For a service whose node indices are rows of the embedding table, a request for
  embeddings returns normally, and the identifiers of the result are exactly the
  requested identifiers that the graph index maps; a similarity query on an unmapped
  identifier returns the empty list.
\<close>

theorem unresolved_identifiers_not_errors:
  "service_ok svc \<Longrightarrow>
   (\<exists>r. get_embeddings svc (Some ids) = Inr r \<and>
        fst ` set r = {e \<in> set ids. dict_has (entity_to_node svc) e}) \<and>
   (\<not> dict_has (entity_to_node svc) e \<longrightarrow> find_similar_entities svc e k = Inr [])"
  by (auto simp: get_embeddings_Some keys_dict_of_pairs image_image dict_has_def
      find_similar_entities_unmapped)

text \<open>
  The example of the specification: of the request A, Z only A comes back, and a query
  on Z returns the empty list.
\<close>

theorem unresolved_identifiers_not_errors_witness:
  "service_ok abc_service \<and> \<not> dict_has (entity_to_node abc_service) ''Z'' \<and>
   get_embeddings abc_service (Some [''A'', ''Z'']) = Inr [(''A'', [1])] \<and>
   find_similar_entities abc_service ''Z'' 10 = Inr []"
proof -
  have z: "\<not> dict_has (entity_to_node abc_service) ''Z''"
    by (simp add: dict_has_def abc_service_maps)
  have "find_similar_entities abc_service ''Z'' 10 = Inr []"
    using unresolved_identifiers_not_errors [OF abc_service_ok, of "[''A'', ''Z'']" "''Z''" 10] z
    by blast
  moreover have "get_embeddings abc_service (Some [''A'', ''Z'']) = Inr [(''A'', [1])]"
    by (simp add: get_embeddings_Some [OF abc_service_ok] abc_service_maps abc_service_emb
        dict_has_def dict_of_pairs_def dict_set_def)
  ultimately show ?thesis using z abc_service_ok by simp
qed

subsection \<open>The bound \<open>top_k\<close>\<close>

lemma py_slice_to_zero: "py_slice_to xs 0 = []"
  by (simp add: py_slice_to_def)

lemma py_slice_to_all: "int (length xs) \<le> k \<Longrightarrow> py_slice_to xs k = xs"
  by (simp add: py_slice_to_def)

lemma py_slice_to_negative:
  assumes "k < 0"
  shows "py_slice_to xs k = take (length xs - nat (- k)) xs"
proof -
  have "nat (int (length xs) + k) = length xs - nat (- k)" using assms by arith
  then show ?thesis using assms by (simp only: py_slice_to_def) simp
qed


lemma find_similar_top_k_zero:
  "service_ok svc \<Longrightarrow> find_similar_entities svc e 0 = Inr []"
  by (cases "map_of (entity_to_node svc) e")
     (simp_all add: find_similar_entities_unmapped find_similar_entities_mapped py_slice_to_zero)

lemma find_similar_top_k_large:
  assumes "service_ok svc" "map_of (entity_to_node svc) e = Some i"
    and "cs = candidates e (node_embedding (model svc) ! i)
                (foldl (\<lambda>d (j, e'). dict_set d e' (node_embedding (model svc) ! j)) []
                   (node_to_entity svc))"
    and "int (length cs) \<le> k"
  shows "find_similar_entities svc e k = Inr (sort_by_score_desc cs)"
  using assms
  by (simp add: find_similar_entities_mapped py_slice_to_all length_sort_by_score_desc)

text \<open>
  C3. On the example scenario, the query for A with \<open>top_k = -1\<close> does not return
  the empty list: the slice drops the last of the two ranked candidates and returns
  the first.
\<close>

theorem find_similar_negative_top_k:
  "find_similar abc_state ''A'' (- 1) = Inr [\<lparr>entity_id = ''B'', score = 1, label = ''Entity''\<rparr>]"
proof -
  have "service_of abc_state = Inr abc_service"
    by (simp add: abc_service_def service_of_def abc_state_def startup_def abc_graph_def
      initial_state_def)
  then show ?thesis by (simp add: find_similar_def abc_find_similar_A py_slice_to_def)
qed

section \<open>Services built at start-up\<close>

lemma set_update_subset: "set (AList.update k v al) \<subseteq> insert (k, v) (set al)"
  by (induction al) auto

lemma build_mappings_e2n_range:
  "\<forall>(e, i) \<in> set e2n. i < k \<Longrightarrow>
   \<forall>(e, i) \<in> set (snd (build_mappings k ids (n2e, e2n))). i < k + length ids"
proof (induction ids arbitrary: k n2e e2n)
  case Nil
  then show ?case by simp
next
  case (Cons a ids)
  have "\<forall>(e, i) \<in> set (dict_set e2n a k). i < Suc k"
    using Cons.prems set_update_subset [of a k e2n] by (fastforce simp: dict_set_def)
  from Cons.IH [OF this, of "dict_set n2e k a"] show ?case by simp
qed

lemma built_from_service_ok:
  assumes "built_from ids svc"
  shows "service_ok svc"
proof -
  have n2e: "node_to_entity svc = zip [0..<length ids] ids"
    and e2n: "entity_to_node svc = snd (build_mappings 0 ids ([], []))"
    and len: "length (node_embedding (model svc)) = length ids"
    using assms n2e_closed [of ids] by (auto simp: built_from_def dest: arg_cong [where f = fst] arg_cong [where f = snd])
  have "\<forall>(e, i) \<in> set (entity_to_node svc). i < length ids"
    unfolding e2n using build_mappings_e2n_range [of "[]" 0 ids "[]"] by simp
  moreover have "\<forall>(i, e) \<in> set (node_to_entity svc). i < length ids"
    unfolding n2e by (auto dest: set_zip_leftD)
  ultimately show ?thesis by (simp add: service_ok_def list_all_iff len)
qed

lemma built_from_mapped:
  assumes "built_from ids svc"
  shows "dict_has (entity_to_node svc) e = (e \<in> set ids)"
proof -
  have "entity_to_node svc = snd (build_mappings 0 ids ([], []))"
    using assms by (auto simp: built_from_def dest: arg_cong [where f = snd])
  then have "fst ` set (entity_to_node svc) = set ids"
    using build_mappings_e2n_keys [of 0 ids "[]" "[]"] by simp
  then show ?thesis by (simp add: dict_has_def map_of_eq_None_iff)
qed

lemma all_embeddings_distinct:
  "distinct (map snd n2e) \<Longrightarrow> snd ` set n2e \<inter> fst ` set acc = {} \<Longrightarrow>
   foldl (\<lambda>d (j, e). dict_set d e (emb ! j)) acc n2e = acc @ map (\<lambda>(j, e). (e, emb ! j)) n2e"
proof (induction n2e arbitrary: acc)
  case Nil
  then show ?case by simp
next
  case (Cons a n2e)
  obtain j e where a: "a = (j, e)" by (cases a)
  have fresh: "e \<notin> fst ` set acc" using Cons.prems a by auto
  have acc': "dict_set acc e (emb ! j) = acc @ [(e, emb ! j)]"
    by (simp add: dict_set_def update_fresh [OF fresh])
  have "snd ` set n2e \<inter> fst ` set (acc @ [(e, emb ! j)]) = {}"
    using Cons.prems a by auto
  from Cons.IH [OF _ this] Cons.prems(1) show ?case by (simp add: a acc')
qed

lemma candidates_index_order:
  assumes d: "distinct ids"
  shows "sorted_wrt (lower_node_index (zip ids [0..<length ids]))
           (candidates q qe (map (\<lambda>(j, e). (e, emb ! j)) (zip [0..<length ids] ids)))"
proof -
  let ?zs = "zip [0..<length ids] ids"
  let ?h = "\<lambda>(j, e). (e, emb ! j)"
  let ?entry = "\<lambda>(other_entity_id, other_emb).
                  \<lparr>entity_id = other_entity_id, score = cosine_similarity qe other_emb,
                   label = ''Entity''\<rparr>"
  let ?R = "lower_node_index (zip ids [0..<length ids])"
  have "sorted_wrt (<) (map fst ?zs)" by simp
  then have base: "sorted_wrt (\<lambda>a b. fst a < fst b) ?zs" by (simp only: sorted_wrt_map)
  have "sorted_wrt (\<lambda>a b. ?R (?entry (?h a)) (?entry (?h b))) ?zs"
  proof (rule sorted_wrt_mono_rel [OF _ base])
    fix a b assume a: "a \<in> set ?zs" and b: "b \<in> set ?zs" and lt: "fst a < fst b"
    obtain i e where ae: "a = (i, e)" by (cases a)
    obtain j e' where be: "b = (j, e')" by (cases b)
    have "i < length ids \<and> ids ! i = e" using a ae by (auto simp: set_zip)
    then have i: "map_of (zip ids [0..<length ids]) e = Some i"
      by (simp add: map_of_zip_distinct_index [OF d])
    have "j < length ids \<and> ids ! j = e'" using b be by (auto simp: set_zip)
    then have j: "map_of (zip ids [0..<length ids]) e' = Some j"
      by (simp add: map_of_zip_distinct_index [OF d])
    show "?R (?entry (?h a)) (?entry (?h b))"
      using i j lt by (simp add: ae be lower_node_index_def)
  qed
  then have "sorted_wrt (\<lambda>a b. ?R (?entry a) (?entry b)) (map ?h ?zs)"
    by (simp only: sorted_wrt_map)
  then have "sorted_wrt (\<lambda>a b. ?R (?entry a) (?entry b))
               (filter (\<lambda>(other_entity_id, other_emb). other_entity_id \<noteq> q) (map ?h ?zs))"
    by (rule sorted_wrt_filter)
  then show ?thesis by (simp only: candidates_def sorted_wrt_map)
qed

lemma abc_built_from: "built_from (entity_ids abc_graph) abc_service"
  by (simp add: built_from_def abc_service_maps abc_service_emb abc_graph_def dict_set_def)

text \<open>
  C2 (as amended). For the service built at start-up on the identifiers \<open>ids\<close>, with
  any parameter values, a query on a mapped identifier returns, for every \<open>top_k\<close>,
  a list sorted in non-increasing order of score; and when the identifiers are pairwise
  distinct, of two entries with the same score the one that the graph index resolves
  to the lower node index comes first.
\<close>

theorem find_similar_ranking:
  assumes b: "built_from ids svc" and q: "q \<in> set ids"
  shows "\<exists>r. find_similar_entities svc q k = Inr r \<and>
             sorted_wrt (\<lambda>a b. score b \<le> score a) r \<and>
             (distinct ids \<longrightarrow>
                sorted_wrt (\<lambda>a b. score a = score b \<longrightarrow>
                                    lower_node_index (entity_to_node svc) a b) r)"
proof -
  have ok: "service_ok svc" using b by (rule built_from_service_ok)
  obtain i where i: "map_of (entity_to_node svc) q = Some i"
    using built_from_mapped [OF b, of q] q by (auto simp: dict_has_def)
  let ?emb = "node_embedding (model svc)"
  let ?all = "foldl (\<lambda>d (j, e'). dict_set d e' (?emb ! j)) [] (node_to_entity svc)"
  let ?c = "candidates q (?emb ! i) ?all"
  let ?r = "py_slice_to (sort_by_score_desc ?c) k"
  have r: "find_similar_entities svc q k = Inr ?r"
    by (rule find_similar_entities_mapped [OF ok i])
  have s: "sorted_wrt (\<lambda>a b. score b \<le> score a) ?r"
    by (rule sorted_wrt_py_slice_to) (rule sort_by_score_desc_sorted)
  have t: "sorted_wrt (\<lambda>a b. score a = score b \<longrightarrow> lower_node_index (entity_to_node svc) a b) ?r"
    if d: "distinct ids"
  proof -
    have n2e: "node_to_entity svc = zip [0..<length ids] ids"
      using b n2e_closed [of ids] by (auto simp: built_from_def dest: arg_cong [where f = fst])
    have e2n: "entity_to_node svc = zip ids [0..<length ids]"
      using b e2n_closed [OF d] by (auto simp: built_from_def dest: arg_cong [where f = snd])
    have "distinct (map snd (zip [0..<length ids] ids))" using d by simp
    then have "?all = map (\<lambda>(j, e). (e, ?emb ! j)) (zip [0..<length ids] ids)"
      unfolding n2e using all_embeddings_distinct [of "zip [0..<length ids] ids" "[]" ?emb]
      by simp
    then have "sorted_wrt (lower_node_index (entity_to_node svc)) ?c"
      unfolding e2n using candidates_index_order [OF d, of q "?emb ! i" ?emb] by simp
    then have "sorted_wrt (\<lambda>a b. score b < score a \<or>
                 (score a = score b \<and> lower_node_index (entity_to_node svc) a b))
                 (sort_by_score_desc ?c)"
      by (rule sort_by_score_desc_tie)
    then have "sorted_wrt (\<lambda>a b. score a = score b \<longrightarrow> lower_node_index (entity_to_node svc) a b)
                 (sort_by_score_desc ?c)"
      by (rule sorted_wrt_mono_rel [rotated]) auto
    then show ?thesis by (rule sorted_wrt_py_slice_to)
  qed
  show ?thesis using r s t by blast
qed

text \<open>
  On the example scenario all scores are equal, and B (node 1) is returned before
  C (node 2).
\<close>

theorem find_similar_ranking_witness:
  "built_from (entity_ids abc_graph) abc_service \<and> ''A'' \<in> set (entity_ids abc_graph) \<and>
   distinct (entity_ids abc_graph) \<and>
   find_similar_entities abc_service ''A'' 5 =
     Inr [\<lparr>entity_id = ''B'', score = 1, label = ''Entity''\<rparr>,
          \<lparr>entity_id = ''C'', score = 1, label = ''Entity''\<rparr>] \<and>
   lower_node_index (entity_to_node abc_service)
     \<lparr>entity_id = ''B'', score = 1, label = ''Entity''\<rparr>
     \<lparr>entity_id = ''C'', score = 1, label = ''Entity''\<rparr>"
proof -
  have q: "''A'' \<in> set (entity_ids abc_graph)" and d: "distinct (entity_ids abc_graph)"
    by (simp_all add: abc_graph_def)
  obtain r where r: "find_similar_entities abc_service ''A'' 5 = Inr r"
    and t: "sorted_wrt (\<lambda>a b. score a = score b \<longrightarrow>
                        lower_node_index (entity_to_node abc_service) a b) r"
    using find_similar_ranking [OF abc_built_from q, of 5] d by blast
  have e: "r = [\<lparr>entity_id = ''B'', score = 1, label = ''Entity''\<rparr>,
               \<lparr>entity_id = ''C'', score = 1, label = ''Entity''\<rparr>]"
    using r by (simp add: abc_find_similar_A py_slice_to_def)
  have "lower_node_index (entity_to_node abc_service)
          \<lparr>entity_id = ''B'', score = 1, label = ''Entity''\<rparr>
          \<lparr>entity_id = ''C'', score = 1, label = ''Entity''\<rparr>"
    using t unfolding e by simp
  then show ?thesis using abc_built_from q d r e by simp
qed

text \<open>
  C2 as stated fails when an identifier is repeated. With the identifiers A, B, A, Q and
  equal scores, the query on Q returns A before B, although the graph index resolves A
  to node 2 and B to node 1: A keeps the place of its first insertion into the
  dictionary of all embeddings.
\<close>

theorem find_similar_tie_break_counterexample:
  "built_from (entity_ids abaq_graph) abaq_service \<and>
   find_similar_entities abaq_service ''Q'' 10 =
     Inr [\<lparr>entity_id = ''A'', score = 1, label = ''Entity''\<rparr>,
          \<lparr>entity_id = ''B'', score = 1, label = ''Entity''\<rparr>] \<and>
   map_of (entity_to_node abaq_service) ''A'' = Some 2 \<and>
   map_of (entity_to_node abaq_service) ''B'' = Some 1 \<and>
   \<not> lower_node_index (entity_to_node abaq_service)
       \<lparr>entity_id = ''A'', score = 1, label = ''Entity''\<rparr>
       \<lparr>entity_id = ''B'', score = 1, label = ''Entity''\<rparr>"
  by (simp add: abaq_find_similar_Q py_slice_to_def abaq_service_maps built_from_def
      abaq_service_emb abaq_graph_def dict_set_def lower_node_index_def)

section \<open>Which vectors are served\<close>

lemma build_mappings_e2n_map_of:
  "map_of (snd (build_mappings k ids (n2e, e2n))) =
   map_of e2n ++ map_of (rev (zip ids [k..<k + length ids]))"
proof (induction ids arbitrary: k n2e e2n)
  case Nil
  then show ?case by simp
next
  case (Cons a ids)
  have "map_of (snd (build_mappings (Suc k) ids (dict_set n2e k a, dict_set e2n a k))) =
        (map_of e2n)(a \<mapsto> k) ++ map_of (rev (zip ids [Suc k..<Suc k + length ids]))"
    by (simp only: Cons.IH map_of_dict_set)
  also have "\<dots> = map_of e2n ++ ([a \<mapsto> k] ++ map_of (rev (zip ids [Suc k..<Suc k + length ids])))"
    by (auto simp: fun_eq_iff map_add_def split: option.splits)
  finally show ?case using upt_shift_Cons [of k a ids] by simp
qed

lemma all_embeddings_map_of:
  "map_of (foldl (\<lambda>d (j, e). dict_set d e ((emb :: matrix) ! j)) []
             (zip [0..<length ids] (ids :: string list))) e =
   map_option (\<lambda>j. emb ! j) (map_of (rev (zip ids [0..<length ids])) e)"
proof -
  let ?h = "\<lambda>(j, e). (e, emb ! j)"
  have f: "foldl (\<lambda>d (j, e). dict_set d e (emb ! j)) acc zs =
           foldl (\<lambda>d (k, v). dict_set d k v) acc (map ?h zs)"
    for zs :: "(nat \<times> string) list" and acc
    by (induction zs arbitrary: acc) auto
  have "map ?h (zip [0..<length ids] ids) = map (\<lambda>(e, j). (e, emb ! j)) (zip ids [0..<length ids])"
    by (subst zip_commute) (simp add: case_prod_beta)
  then have "rev (map ?h (zip [0..<length ids] ids)) =
             map (\<lambda>(e, j). (e, emb ! j)) (rev (zip ids [0..<length ids]))"
    by (simp add: rev_map)
  then show ?thesis by (simp add: f map_of_dict_fold map_of_map)
qed

text \<open>
  C1 (as amended). For the service built at start-up on the identifiers \<open>ids\<close>, with
  any parameter values, and every identifier that the graph index resolves to a node
  index \<open>i\<close>: the vector that \<open>get_embeddings\<close> returns for it, on a request
  that names it and on the request for all embeddings (the one \<open>find_similar_entities\<close>
  ranks), is row \<open>i\<close> of the embedding table \<open>node_embedding\<close> of the model.
\<close>

theorem served_vector_is_table_row:
  assumes b: "built_from ids svc" and i: "map_of (entity_to_node svc) e = Some i"
  shows "(\<forall>req. e \<in> set req \<longrightarrow>
            (\<exists>r. get_embeddings svc (Some req) = Inr r \<and>
                 map_of r e = Some (node_embedding (model svc) ! i))) \<and>
         (\<exists>r. get_embeddings svc None = Inr r \<and>
              map_of r e = Some (node_embedding (model svc) ! i))"
proof -
  have ok: "service_ok svc" using b by (rule built_from_service_ok)
  have h: "dict_has (entity_to_node svc) e" using i by (simp add: dict_has_def)
  have "map_of (dict_of_pairs
                  (map (\<lambda>e. (e, node_embedding (model svc) ! the (map_of (entity_to_node svc) e)))
                     (filter (dict_has (entity_to_node svc)) req))) e =
        Some (node_embedding (model svc) ! i)" if "e \<in> set req" for req
    using that h i by (simp add: map_of_dict_of_pairs map_of_rev_keyed)
  then have 1: "\<forall>req. e \<in> set req \<longrightarrow>
            (\<exists>r. get_embeddings svc (Some req) = Inr r \<and>
                 map_of r e = Some (node_embedding (model svc) ! i))"
    by (simp add: get_embeddings_Some [OF ok])
  have n2e: "node_to_entity svc = zip [0..<length ids] ids"
    using b n2e_closed [of ids] by (auto simp: built_from_def dest: arg_cong [where f = fst])
  have e2n: "entity_to_node svc = snd (build_mappings 0 ids ([], []))"
    using b by (auto simp: built_from_def dest: arg_cong [where f = snd])
  have "map_of (rev (zip ids [0..<length ids])) e = Some i"
    using i unfolding e2n build_mappings_e2n_map_of by simp
  then have 2: "\<exists>r. get_embeddings svc None = Inr r \<and>
              map_of r e = Some (node_embedding (model svc) ! i)"
    by (simp add: get_embeddings_None [OF ok] n2e all_embeddings_map_of)
  show ?thesis using 1 2 by blast
qed

text \<open>On the example scenario B is node 1, and its served vector is row 1 of the table.\<close>

theorem served_vector_is_table_row_witness:
  "built_from (entity_ids abc_graph) abc_service \<and>
   map_of (entity_to_node abc_service) ''B'' = Some 1 \<and>
   node_embedding (model abc_service) ! 1 = [2] \<and>
   map_of (projr (get_embeddings abc_service (Some [''A'', ''B'']))) ''B'' = Some [2] \<and>
   map_of (projr (get_embeddings abc_service None)) ''B'' = Some [2]"
proof -
  have i: "map_of (entity_to_node abc_service) ''B'' = Some 1" by (simp add: abc_service_maps)
  have row: "node_embedding (model abc_service) ! 1 = [2]" by (simp add: abc_service_emb)
  have m: "''B'' \<in> set [''A'', ''B'']" by simp
  obtain r where r: "get_embeddings abc_service (Some [''A'', ''B'']) = Inr r"
    and rv: "map_of r ''B'' = Some (node_embedding (model abc_service) ! 1)"
    using served_vector_is_table_row [OF abc_built_from i] m by blast
  obtain r' where r': "get_embeddings abc_service None = Inr r'"
    and rv': "map_of r' ''B'' = Some (node_embedding (model abc_service) ! 1)"
    using served_vector_is_table_row [OF abc_built_from i] by blast
  show ?thesis using abc_built_from i row r rv r' rv' by simp
qed

lemma abc_forward:
  "forward (model abc_service) (edges abc_graph) (edge_types abc_graph) = Inr [[2], [5], [8]]"
  by (simp add: abc_service_def service_of_def abc_state_def startup_def abc_graph_def
      initial_state_def cfg0_def dict_set_def RGCNModel_init_def tabulate_def p0_def
      forward_def conv_dims_def RGCNConv_init_def RGCNConv_forward_def relation_message_def
      vec_mat_def vec_sum_def vec_add_def vec_scale_def zeros_def eval_nat_numeral)



text \<open>
  C1 as stated fails: on the example scenario the forward pass over the two edges
  gives B the row \<open>[5]\<close>, and the service returns the row \<open>[2]\<close> of the
  embedding table.
\<close>

theorem served_vector_not_forward_counterexample:
  "map_of (entity_to_node abc_service) ''B'' = Some 1 \<and>
   forward (model abc_service) (edges abc_graph) (edge_types abc_graph) = Inr [[2], [5], [8]] \<and>
   get_embeddings abc_service (Some [''B'']) = Inr [(''B'', [2])] \<and>
   get_embeddings abc_service (Some [''B'']) \<noteq>
     Inr [(''B'', projr (forward (model abc_service) (edges abc_graph) (edge_types abc_graph)) ! 1)]"
proof -
  have i: "map_of (entity_to_node abc_service) ''B'' = Some 1" by (simp add: abc_service_maps)
  have g: "get_embeddings abc_service (Some [''B'']) = Inr [(''B'', [2])]"
    by (simp add: get_embeddings_single [OF abc_service_ok i] abc_service_emb)
  show ?thesis by (simp add: i g abc_forward)
qed

section \<open>Start-up on an empty graph\<close>

lemma service_of_no_model:
  "g_model st = None \<Longrightarrow> service_of st = Inl (HTTPException 503 ''Model not loaded'')"
  by (simp add: service_of_def)

text \<open>
  C4 (as amended). When the entity set is empty, start-up returns normally and signals
  no error: it stores the graph data and leaves the model and the trainer unconstructed
  and both mappings empty. The embeddings and similarity endpoints then fail with
  HTTP status 503, "Model not loaded".
\<close>

theorem empty_graph_no_model_no_error:
  assumes "entity_ids g = []"
  shows "\<exists>st. startup True g cfg p initial_state = Inr st \<and>
              st = initial_state\<lparr>graph_data_cache := Some g\<rparr> \<and>
              g_model st = None \<and> g_trainer st = None \<and>
              g_node_to_entity st = [] \<and> g_entity_to_node st = [] \<and>
              embeddings_endpoint st ids = Inl (HTTPException 503 ''Model not loaded'') \<and>
              find_similar st e k = Inl (HTTPException 503 ''Model not loaded'')"
  using assms
  by (simp add: startup_def initial_state_def embeddings_endpoint_def find_similar_def
      service_of_def)

text \<open>The graph the connector returns for an empty database.\<close>

theorem empty_graph_no_model_no_error_witness:
  "entity_ids empty_graph = [] \<and>
   startup True empty_graph cfg0 p0 initial_state =
     Inr (initial_state\<lparr>graph_data_cache := Some empty_graph\<rparr>) \<and>
   find_similar (projr (startup True empty_graph cfg0 p0 initial_state)) ''A'' 10 =
     Inl (HTTPException 503 ''Model not loaded'')"
proof -
  have e: "entity_ids empty_graph = []" by (simp add: empty_graph_def)
  from empty_graph_no_model_no_error [OF e, of cfg0 p0 "[]" "''A''" 10]
  show ?thesis using e by auto
qed

text \<open>
  C4 as stated fails: on the empty graph start-up does not fail with
  \<open>EmptyGraphError\<close>; it returns a state.
\<close>

theorem empty_graph_error_counterexample:
  "entity_ids empty_graph = [] \<and>
   startup True empty_graph cfg0 p0 initial_state \<noteq> Inl EmptyGraphError \<and>
   startup True empty_graph cfg0 p0 initial_state =
     Inr (initial_state\<lparr>graph_data_cache := Some empty_graph\<rparr>)"
  by (simp add: startup_def empty_graph_def)

section \<open>Cosine similarity\<close>

lemma dot_self_nonneg: "0 \<le> dot a a"
  by (induction a) (simp_all add: dot_def)

lemma cosine_similarity_self:
  assumes "vec_norm a \<noteq> 0"
  shows "cosine_similarity a a = 1"
proof -
  have "dot a a \<noteq> 0" using assms by (auto simp: vec_norm_def)
  then have pos: "0 < dot a a" using dot_self_nonneg [of a] by simp
  have "vec_norm a * vec_norm a = dot a a"
    using pos by (simp add: vec_norm_def)
  then show ?thesis using assms pos by (simp add: cosine_similarity_def)
qed

lemma vec_norm_zero_iff: "(vec_norm a = 0) = list_all (\<lambda>x. x = 0) a"
proof -
  have "(dot a a = 0) = list_all (\<lambda>x. x = 0) a"
  proof (induction a)
    case Nil
    then show ?case by (simp add: dot_def)
  next
    case (Cons x a)
    have "dot (x # a) (x # a) = x * x + dot a a" by (simp add: dot_def)
    moreover have "(x * x + dot a a = 0) = (x = 0 \<and> dot a a = 0)"
      using dot_self_nonneg [of a] by (auto simp: add_nonneg_eq_0_iff)
    ultimately show ?case using Cons.IH by simp
  qed
  then show ?thesis by (simp add: vec_norm_def)
qed

text \<open>
  C9 (as amended). The similarity of any vector of non-zero norm with itself is 1, and
  any similarity that involves a vector of zero norm is 0.
\<close>

theorem cosine_similarity_self_and_zero:
  "(vec_norm a \<noteq> 0 \<longrightarrow> cosine_similarity a a = 1) \<and>
   (vec_norm a = 0 \<or> vec_norm b = 0 \<longrightarrow> cosine_similarity a b = 0)"
proof (intro conjI impI)
  assume "vec_norm a \<noteq> 0"
  then show "cosine_similarity a a = 1" by (rule cosine_similarity_self)
next
  assume "vec_norm a = 0 \<or> vec_norm b = 0"
  then show "cosine_similarity a b = 0" by (simp add: cosine_similarity_def)
qed

text \<open>The vector (3, 4) against itself and against the zero vector.\<close>

theorem cosine_similarity_self_and_zero_witness:
  "vec_norm [3, 4] \<noteq> 0 \<and> cosine_similarity [3, 4] [3, 4] = 1 \<and>
   vec_norm [0, 0] = 0 \<and> cosine_similarity [3, 4] [0, 0] = 0"
proof -
  have n: "vec_norm [3, 4] \<noteq> 0" by (simp add: vec_norm_zero_iff)
  have z: "vec_norm [0, 0] = 0" by (simp add: vec_norm_zero_iff)
  from cosine_similarity_self_and_zero [of "[3, 4]" "[0, 0]"] n z
  show ?thesis by simp
qed

text \<open>
  C9 as stated fails for the zero vector, whose similarity with itself is 0 and not 1.
\<close>

theorem cosine_similarity_zero_self_counterexample:
  "cosine_similarity [0, 0] [0, 0] = 0 \<and> cosine_similarity [0, 0] [0, 0] \<noteq> 1"
  by (simp add: cosine_similarity_def vec_norm_def dot_def)

section \<open>The convolution stack\<close>

lemma length_vec_sum: "\<forall>v \<in> set vs. length v = n \<Longrightarrow> length (vec_sum n vs) = n"
  by (induction vs) (simp_all add: vec_sum_def vec_add_def zeros_def)

lemma length_vec_mat: "\<forall>row \<in> set W. length row = n \<Longrightarrow> length (vec_mat x W n) = n"
  unfolding vec_mat_def
  by (rule length_vec_sum) (auto simp: vec_scale_def dest: set_zip_rightD)

lemma has_shape_tabulate: "has_shape r c (tabulate r c f)"
  by (simp add: has_shape_def tabulate_def list_all_iff)

lemma conv_ok_init: "conv_ok (RGCNConv_init i o' nrel w rt)"
  by (simp add: conv_ok_def RGCNConv_init_def has_shape_tabulate list_all_iff)

lemma length_relation_message:
  assumes "conv_ok c" "r < length (weight c)"
  shows "length (relation_message c x ei et v r) = out_channels c"
proof -
  have "has_shape (in_channels c) (out_channels c) (weight c ! r)"
    using assms by (simp add: conv_ok_def list_all_length)
  then have "\<forall>row \<in> set (weight c ! r). length row = out_channels c"
    by (simp add: has_shape_def list_all_iff)
  then have "length (vec_mat u (weight c ! r) (out_channels c)) = out_channels c" for u
    by (rule length_vec_mat)
  then show ?thesis
    unfolding relation_message_def Let_def
    by (intro length_vec_sum) (auto simp: vec_scale_def)
qed

lemma RGCNConv_forward_shape:
  assumes c: "conv_ok c" and x: "has_shape n (in_channels c) x"
    and e: "list_all (\<lambda>(u, v). u < n \<and> v < n) ei" and t: "length et = length ei"
  shows "\<exists>y. RGCNConv_forward c x ei et = Inr y \<and> has_shape n (out_channels c) y"
proof -
  have n: "length x = n" and rows: "list_all (\<lambda>row. length row = in_channels c) x"
    using x by (simp_all add: has_shape_def)
  have "\<forall>row \<in> set (root c). length row = out_channels c"
    using c by (simp add: conv_ok_def has_shape_def list_all_iff)
  then have self: "length (vec_mat u (root c) (out_channels c)) = out_channels c" for u
    by (rule length_vec_mat)
  have msgs: "length (vec_sum (out_channels c)
                 (map (relation_message c x ei et v) [0..<length (weight c)])) = out_channels c"
    for v
    by (rule length_vec_sum) (auto simp: length_relation_message [OF c])
  show ?thesis
    using e n rows t
    by (simp add: RGCNConv_forward_def has_shape_def list_all_iff vec_add_def self msgs)
qed

lemma has_shape_relu: "has_shape n d (relu x) = has_shape n d x"
  by (simp add: has_shape_def relu_def list_all_iff)

lemma forward_loop_shape:
  assumes "\<forall>c \<in> set cs. conv_ok c" and "chained d cs" and "has_shape n d x"
    and "list_all (\<lambda>(u, v). u < n \<and> v < n) ei" and "length et = length ei"
  shows "\<exists>y. forward_loop i m cs ei et x = Inr y \<and> has_shape n (final_dim d cs) y"
  using assms
proof (induction cs arbitrary: i d x)
  case Nil
  then show ?case by simp
next
  case (Cons c cs)
  have x: "has_shape n (in_channels c) x" using Cons.prems by simp
  have c: "conv_ok c" using Cons.prems by simp
  obtain y where y: "RGCNConv_forward c x ei et = Inr y"
    and sy: "has_shape n (out_channels c) y"
    using RGCNConv_forward_shape [OF c x Cons.prems(4) Cons.prems(5)] by blast
  let ?y = "if int i < int m - 1 then relu y else y"
  have "has_shape n (out_channels c) ?y" using sy by (simp add: has_shape_relu)
  moreover have "\<forall>c \<in> set cs. conv_ok c" and "chained (out_channels c) cs"
    using Cons.prems by simp_all
  ultimately obtain z where "forward_loop (Suc i) m cs ei et ?y = Inr z"
    and "has_shape n (final_dim (out_channels c) cs) z"
    using Cons.IH [of "out_channels c" ?y "Suc i"] Cons.prems(4) Cons.prems(5) by blast
  then show ?case using y by simp
qed


subsection \<open>The layers the constructor builds\<close>


lemma convs_ok: "\<forall>c \<in> set (convs (RGCNModel_init n rels emb hid L p)). conv_ok c"
  by (auto simp: RGCNModel_init_def conv_ok_init)



lemma chained_tail:
  "chained hid (map (\<lambda>(l, (i, o')). RGCNConv_init i o' rels (w l) (rt l))
                  (enumerate s (replicate k (hid, hid) @ [(hid, emb)]))) \<and>
   final_dim hid (map (\<lambda>(l, (i, o')). RGCNConv_init i o' rels (w l) (rt l))
                    (enumerate s (replicate k (hid, hid) @ [(hid, emb)]))) = emb"
  by (induction k arbitrary: s) (simp_all add: RGCNConv_init_def)

lemma convs_chained:
  "chained emb (convs (RGCNModel_init n rels emb hid L p)) \<and>
   final_dim emb (convs (RGCNModel_init n rels emb hid L p)) = emb"
proof (cases "L = 1")
  case True
  then show ?thesis by (simp add: RGCNModel_init_def conv_dims_def RGCNConv_init_def)
next
  case False
  then show ?thesis
    using chained_tail [of hid rels "weight_init p" "root_init p" "Suc 0" "nat (L - 2)" emb]
    by (simp add: RGCNModel_init_def conv_dims_def RGCNConv_init_def)
qed

lemma forward_shape:
  assumes "list_all (\<lambda>(u, v). u < n \<and> v < n) ei" and "length et = length ei"
  shows "\<exists>y. forward (RGCNModel_init n rels emb hid L p) ei et = Inr y \<and> has_shape n emb y"
proof -
  let ?m = "RGCNModel_init n rels emb hid L p"
  have x: "has_shape n emb (node_embedding ?m)"
    by (simp add: RGCNModel_init_def has_shape_tabulate)
  have "\<exists>y. forward_loop 0 (length (convs ?m)) (convs ?m) ei et (node_embedding ?m) = Inr y \<and>
            has_shape n (final_dim emb (convs ?m)) y"
    by (rule forward_loop_shape [OF convs_ok _ x assms]) (simp add: convs_chained)
  then show ?thesis by (simp add: forward_def convs_chained)
qed




section \<open>From start-up to the service\<close>

text \<open>
  On a graph with at least one entity, the service the endpoints build from the state
  that start-up leaves is a service built on the identifiers of the graph.
\<close>

lemma startup_service_built_from:
  assumes "entity_ids g \<noteq> []"
  shows "\<exists>st svc. startup True g cfg p initial_state = Inr st \<and> service_of st = Inr svc \<and>
                  built_from (entity_ids g) svc"
  using assms
  by (simp add: startup_def initial_state_def Let_def service_of_def built_from_def
      RGCNModel_init_def tabulate_def split: prod.splits)

section \<open>The graph the connector returns\<close>

lemma get_graph_data_nodes_invariant:
  assumes "get_graph_data_nodes idx rows (nmap, ids, labs) = (nmap', ids', labs')"
    and "idx = length ids" and "\<forall>(k, v) \<in> set nmap. v < idx"
  shows "length ids' = length ids + length rows \<and> (\<forall>(k, v) \<in> set nmap'. v < length ids')"
  using assms
proof (induction rows arbitrary: idx nmap ids labs)
  case Nil
  then show ?case by auto
next
  case (Cons row rows)
  obtain neo4j_id eid lab where row: "row = (neo4j_id, eid, lab)" by (cases row)
  let ?ids = "ids @ [str_or eid (''node_'' @ string_of_nat idx)]"
  have step: "get_graph_data_nodes (Suc idx) rows
                (dict_set nmap neo4j_id idx, ?ids, labs @ [str_or lab ''Entity'']) =
              (nmap', ids', labs')"
    using Cons.prems(1) by (simp add: row)
  have bound: "\<forall>(k, v) \<in> set (dict_set nmap neo4j_id idx). v < Suc idx"
    using Cons.prems(3) set_update_subset [of neo4j_id idx nmap]
    by (fastforce simp: dict_set_def)
  have next_idx: "Suc idx = length ?ids" using Cons.prems(2) by simp
  have "length ids' = length ?ids + length rows \<and>
        (\<forall>(k, v) \<in> set nmap'. v < length ids')"
    by (rule Cons.IH [OF step next_idx bound])
  then show ?case by auto
qed

lemma length_dict_set_fresh:
  "map_of d k = None \<Longrightarrow> length (dict_set d k v) = Suc (length d)"
  by (simp add: dict_set_def update_fresh map_of_eq_None_iff)

lemma get_graph_data_edges_invariant:
  assumes "get_graph_data_edges nmap rows (es, rts, rtm) = (es', rts', rtm')"
    and "\<forall>(k, v) \<in> set nmap. v < n"
    and "list_all (\<lambda>(u, v). u < n \<and> v < n) es" and "length rts = length es"
    and "\<forall>(k, r) \<in> set rtm. r < length rtm" and "list_all (\<lambda>r. r < length rtm) rts"
  shows "list_all (\<lambda>(u, v). u < n \<and> v < n) es' \<and> length rts' = length es' \<and>
         list_all (\<lambda>r. r < length rtm') rts'"
  using assms
proof (induction rows arbitrary: es rts rtm)
  case Nil
  then show ?case by simp
next
  case (Cons row rows)
  obtain a b rt where row: "row = (a, b, rt)" by (cases row)
  show ?case
  proof (cases "map_of nmap a")
    case None
    then have "get_graph_data_edges nmap rows (es, rts, rtm) = (es', rts', rtm')"
      using Cons.prems(1) by (simp add: row)
    from Cons.IH [OF this Cons.prems(2-6)] show ?thesis .
  next
    case s: (Some s)
    show ?thesis
    proof (cases "map_of nmap b")
      case None
      then have "get_graph_data_edges nmap rows (es, rts, rtm) = (es', rts', rtm')"
        using Cons.prems(1) s by (simp add: row)
      from Cons.IH [OF this Cons.prems(2-6)] show ?thesis .
    next
      case t: (Some t)
      have sn: "s < n" and tn: "t < n"
        using Cons.prems(2) map_of_SomeD [OF s] map_of_SomeD [OF t] by auto
      let ?name = "str_or rt ''RELATED_TO''"
      have es: "list_all (\<lambda>(u, v). u < n \<and> v < n) (es @ [(s, t)])"
        using Cons.prems(3) sn tn by simp
      show ?thesis
      proof (cases "map_of rtm ?name")
        case None
        let ?rtm = "dict_set rtm ?name (length rtm)"
        have step: "get_graph_data_edges nmap rows (es @ [(s, t)], rts @ [length rtm], ?rtm) =
                    (es', rts', rtm')"
          using Cons.prems(1) s t None by (simp add: row)
        have len: "length ?rtm = Suc (length rtm)" by (rule length_dict_set_fresh [OF None])
        have "\<forall>(k, r) \<in> set ?rtm. r < length ?rtm"
          using Cons.prems(5) set_update_subset [of ?name "length rtm" rtm]
          unfolding len by (fastforce simp: dict_set_def)
        moreover have "list_all (\<lambda>r. r < length ?rtm) (rts @ [length rtm])"
          using Cons.prems(6) unfolding len by (auto simp: list_all_iff)
        moreover have "length (rts @ [length rtm]) = length (es @ [(s, t)])"
          using Cons.prems(4) by simp
        ultimately show ?thesis using Cons.IH [OF step Cons.prems(2) es] by blast
      next
        case (Some r)
        have step: "get_graph_data_edges nmap rows (es @ [(s, t)], rts @ [r], rtm) =
                    (es', rts', rtm')"
          using Cons.prems(1) s t Some by (simp add: row)
        have "r < length rtm" using Cons.prems(5) map_of_SomeD [OF Some] by auto
        then have "list_all (\<lambda>r. r < length rtm) (rts @ [r])" using Cons.prems(6) by simp
        moreover have "length (rts @ [r]) = length (es @ [(s, t)])"
          using Cons.prems(4) by simp
        ultimately show ?thesis using Cons.IH [OF step Cons.prems(2) es _ Cons.prems(5)] by blast
      qed
    qed
  qed
qed

text \<open>
  Whatever rows the database returns, the edges of the graph join existing nodes, every
  edge has its type, and every type is a relation index of the graph.
\<close>

lemma get_graph_data_well_formed:
  assumes "g = get_graph_data node_rows edge_rows"
  shows "list_all (\<lambda>(u, v). u < length (entity_ids g) \<and> v < length (entity_ids g)) (edges g) \<and>
         length (edge_types g) = length (edges g) \<and>
         list_all (\<lambda>r. r < length (rel_type_map g)) (edge_types g)"
proof -
  obtain nmap ids labs where nodes: "get_graph_data_nodes 0 node_rows ([], [], []) = (nmap, ids, labs)"
    by (cases "get_graph_data_nodes 0 node_rows ([], [], [])") auto
  show ?thesis
  proof (cases "ids = []")
    case True
    then show ?thesis using assms nodes by (simp add: get_graph_data_def)
  next
    case False
    obtain es rts rtm where edges: "get_graph_data_edges nmap edge_rows ([], [], []) = (es, rts, rtm)"
      by (cases "get_graph_data_edges nmap edge_rows ([], [], [])") auto
    have g: "g = \<lparr>node_map = nmap, entity_ids = ids, labels = labs, edges = es,
                  edge_types = rts, rel_type_map = rtm\<rparr>"
      using assms nodes edges False by (simp add: get_graph_data_def)
    have "0 = length ([] :: string list)" and "\<forall>(k, v) \<in> set ([] :: (int, nat) dict). v < 0"
      by simp_all
    then have "\<forall>(k, v) \<in> set nmap. v < length ids"
      using get_graph_data_nodes_invariant [OF nodes] by blast
    from get_graph_data_edges_invariant [OF edges this]
    show ?thesis by (simp add: g)
  qed
qed

lemma abc_graph_from_rows: "get_graph_data abc_node_rows abc_edge_rows = abc_graph"
  by (simp add: get_graph_data_def abc_node_rows_def abc_edge_rows_def abc_graph_def dict_set_def)


text \<open>
  So the forward pass of the model that start-up builds, run on the edges the connector
  returned, never raises and has the shape \<open>[num_nodes, embedding_dim]\<close>, for every
  layer count.
\<close>

lemma forward_on_connector_graph:
  assumes "g = get_graph_data node_rows edge_rows"
  shows "\<exists>y. forward (RGCNModel_init (length (entity_ids g)) (length (rel_type_map g)) emb hid L p)
               (edges g) (edge_types g) = Inr y \<and>
             has_shape (length (entity_ids g)) emb y"
  using get_graph_data_well_formed [OF assms] by (simp add: forward_shape)

end
